theory Spec2Isabelle
  imports Complex_Main "HOL-Library.Monad_Syntax"
begin

unbundle bit_operations_syntax

section \<open>DynLaborFertModel: a shallow embedding\<close>

text \<open>
  The model follows \<^verbatim>\<open>src/DynLaborFertModel.py\<close>. Floating point numbers are read as
  reals. A Python expression that has no real value (it raises, or numpy gives
  \<^verbatim>\<open>inf\<close> or \<^verbatim>\<open>nan\<close>) is \<open>None\<close>. Array sizes are naturals, index values are Python
  integers: an index \<open>j\<close> into a dimension of size \<open>N\<close> is valid for \<open>- N \<le> j < N\<close>, a negative
  one counting from the end, and anything else is an IndexError, again \<open>None\<close>.
\<close>

subsection \<open>Python and numpy primitives\<close>

definition py_index :: "nat \<Rightarrow> int \<Rightarrow> nat option" where
  "py_index N j =
     (let j' = (if j < 0 then j + int N else j)
      in if 0 \<le> j' \<and> j' < int N then Some (nat j') else None)"

definition py_get :: "real list \<Rightarrow> int \<Rightarrow> real option" where
  "py_get xs j = map_option (\<lambda>j'. xs ! j') (py_index (length xs) j)"

definition py_div :: "real \<Rightarrow> real \<Rightarrow> real option" where
  "py_div x y = (if y = 0 then None else Some (x / y))"

text \<open>
  \<^verbatim>\<open>x ** y\<close> on floats: a positive base has the real power; zero to a negative power
  and a negative base to a fractional power have no real value.
\<close>

definition py_pow :: "real \<Rightarrow> real \<Rightarrow> real option" where
  "py_pow x y =
     (if 0 < x then Some (x powr y)
      else if x = 0 then (if 0 < y then Some 0 else if y = 0 then Some 1 else None)
      else if y = of_int \<lfloor>y\<rfloor> then Some (x powi \<lfloor>y\<rfloor>) else None)"

subsection \<open>Parameters and arrays\<close>

text \<open>
  \<open>par\<close> holds what \<^verbatim>\<open>setup\<close> and \<^verbatim>\<open>allocate\<close> put in \<^verbatim>\<open>self.par\<close>. The grids come
  from \<^verbatim>\<open>consav.grids.nonlinspace\<close>, which is not part of the repository, and are taken as
  given lists; \<^verbatim>\<open>n_grid\<close> and \<^verbatim>\<open>spouse_grid\<close> are \<^verbatim>\<open>arange(Nn)\<close> and \<^verbatim>\<open>arange(Ns)\<close>.
\<close>

record par =
  T :: nat
  rho :: real
  beta_0 :: real
  beta_1 :: real
  eta :: real
  gamma :: real
  alpha :: real
  tau :: real
  p_birth :: real
  p_spouse :: real
  theta :: real
  r :: real
  a_grid :: "real list"
  k_grid :: "real list"
  Nn :: nat
  spouse_dummy :: int
  Ns :: nat
  simT :: nat
  simN :: nat
  w_vec :: "real list"

text \<open>The baseline of \<^verbatim>\<open>setup\<close>, with \<^verbatim>\<open>w_vec = w * ones(T)\<close> as \<^verbatim>\<open>allocate\<close> builds it.\<close>

definition setup_par :: "real list \<Rightarrow> real list \<Rightarrow> par" where
  "setup_par ag kg =
     \<lparr> T = 10, rho = 0.98, beta_0 = 0.1, beta_1 = 0.05, eta = - 2.0, gamma = 2.5,
       alpha = 0.1, tau = 0.1, p_birth = 0.1, p_spouse = 1.0, theta = 0.00, r = 0.02,
       a_grid = ag, k_grid = kg, Nn = 2, spouse_dummy = 0, Ns = 2,
       simT = 10, simN = 1000, w_vec = replicate 10 (1.0 * 1) \<rparr>"

text \<open>A two-dimensional slice \<^verbatim>\<open>arr[t, n, s]\<close> of a solution array, over (asset, capital).\<close>

type_synonym slice = "nat \<Rightarrow> nat \<Rightarrow> real"

type_synonym arr5 = "nat \<Rightarrow> nat \<Rightarrow> nat \<Rightarrow> slice"

record sol =
  sol_c :: arr5
  sol_h :: arr5
  sol_V :: arr5

text \<open>\<^verbatim>\<open>arr[t, n, s]\<close> for an array of shape \<^verbatim>\<open>(T, Nn, Ns, Na, Nk)\<close>.\<close>

definition slice_at :: "par \<Rightarrow> arr5 \<Rightarrow> int \<Rightarrow> int \<Rightarrow> int \<Rightarrow> slice option" where
  "slice_at p arr t n s =
     do { t' \<leftarrow> py_index (T p) t;
          n' \<leftarrow> py_index (Nn p) n;
          s' \<leftarrow> py_index (Ns p) s;
          Some (arr t' n' s') }"

text \<open>
  \<^verbatim>\<open>consav.linear_interp.interp_2d(grid1, grid2, value, xi1, xi2)\<close> is a library function
  outside the repository; the model takes it as the parameter \<open>I\<close> of this type.
\<close>

type_synonym interp = "real list \<Rightarrow> real list \<Rightarrow> slice \<Rightarrow> real \<Rightarrow> real \<Rightarrow> real"

subsection \<open>Period reward model\<close>

definition wage_func :: "par \<Rightarrow> real \<Rightarrow> int \<Rightarrow> real option" where
  "wage_func p capital t =
     do { w \<leftarrow> py_get (w_vec p) t;
          Some ((1.0 - tau p) * w * (1.0 + alpha p * capital)) }"

definition spouse_income_func :: "par \<Rightarrow> int \<Rightarrow> int \<Rightarrow> real" where
  "spouse_income_func p spouse t =
     (if spouse_dummy p = 0 then 0 else of_int spouse * (0.1 + 0.01 * of_int t))"

definition childcare_cost :: "par \<Rightarrow> int \<Rightarrow> real" where
  "childcare_cost p kids = theta p * of_int kids"

text \<open>The two terms of \<^verbatim>\<open>util\<close>, and \<^verbatim>\<open>util\<close> itself.\<close>

definition util_cons :: "par \<Rightarrow> real \<Rightarrow> real option" where
  "util_cons p c = do { pc \<leftarrow> py_pow c (1.0 + eta p); py_div pc (1.0 + eta p) }"

definition util_hours :: "par \<Rightarrow> real \<Rightarrow> int \<Rightarrow> real option" where
  "util_hours p hours kids =
     (let beta = beta_0 p + beta_1 p * of_int kids
      in do { ph \<leftarrow> py_pow hours (1.0 + gamma p); py_div (beta * ph) (1.0 + gamma p) })"

definition util :: "par \<Rightarrow> real \<Rightarrow> real \<Rightarrow> int \<Rightarrow> real option" where
  "util p c hours kids =
     do { uc \<leftarrow> util_cons p c; uh \<leftarrow> util_hours p hours kids; Some (uc - uh) }"

subsection \<open>Last period\<close>

definition cons_last :: "par \<Rightarrow> real \<Rightarrow> real \<Rightarrow> real \<Rightarrow> int \<Rightarrow> int \<Rightarrow> real option" where
  "cons_last p hours assets capital kids spouse =
     do { wg \<leftarrow> wage_func p capital (int (T p) - 1);
          let income_w = wg * hours;
              spouse_income = spouse_income_func p spouse (int (T p) - 1);
              income = income_w + spouse_income;
              childcare = childcare_cost p kids;
              cons = max (assets + income - childcare) (1 / 10 ^ 8)
          in Some cons }"

definition obj_last :: "par \<Rightarrow> real \<Rightarrow> real \<Rightarrow> real \<Rightarrow> int \<Rightarrow> int \<Rightarrow> real option" where
  "obj_last p hours assets capital kids spouse =
     do { cons \<leftarrow> cons_last p hours assets capital kids spouse;
          u \<leftarrow> util p cons hours kids;
          Some (- u) }"

subsection \<open>Earlier periods\<close>

text \<open>
  Step b of \<^verbatim>\<open>value_of_choice\<close>: the penalty for violating bounds, with the consumption
  and hours the rest of the function goes on with.
\<close>

definition bound_penalty :: "real \<Rightarrow> real \<Rightarrow> real \<times> real \<times> real" where
  "bound_penalty cons hours =
     (let penalty = 0.0;
          (penalty, cons) = (if cons < 0.0 then (penalty + cons * 1000.0, 1 / 10 ^ 5)
                             else (penalty, cons));
          (penalty, hours) = (if hours < 0.0 then (penalty + hours * 1000.0, 0.0)
                              else (penalty, hours))
      in (penalty, cons, hours))"

text \<open>Step d, first half: next-period assets and capital.\<close>

definition a_next :: "par \<Rightarrow> real \<Rightarrow> real \<Rightarrow> int \<Rightarrow> int \<Rightarrow> real \<Rightarrow> real \<Rightarrow> int \<Rightarrow> real option" where
  "a_next p assets capital spouse kids cons hours t =
     do { wg \<leftarrow> wage_func p capital t;
          let income_w = wg * hours;
              spouse_income = spouse_income_func p spouse t;
              income = income_w + spouse_income;
              childcare = childcare_cost p kids
          in Some ((1.0 + r p) * (assets + income - cons - childcare)) }"

definition k_next :: "real \<Rightarrow> real \<Rightarrow> real" where
  "k_next capital hours = capital + hours"

text \<open>
  Step d, second half: the three interpolated continuation values
  \<^verbatim>\<open>(V_next_no_birth, V_next_birth, V_next_no_spouse)\<close>. The variable \<^verbatim>\<open>kids_next\<close> is
  assigned in the birth branch and read again after it.
\<close>

definition V_nexts ::
  "interp \<Rightarrow> par \<Rightarrow> sol \<Rightarrow> real \<Rightarrow> real \<Rightarrow> int \<Rightarrow> int \<Rightarrow> (real \<times> real \<times> real) option" where
  "V_nexts I p sl an kn kids t =
     (let spouse_next = 1; no_spouse_next = 0; kids_next = kids
      in do { V_next \<leftarrow> slice_at p (sol_V sl) (t + 1) kids_next spouse_next;
              let V_next_no_birth = I (a_grid p) (k_grid p) V_next an kn;
              (kids_next, V_next_birth) \<leftarrow>
                 (if kids \<ge> int (Nn p) - 1 then Some (kids_next, V_next_no_birth)
                  else (let kids_next = kids + 1
                        in do { V_next \<leftarrow> slice_at p (sol_V sl) (t + 1) kids_next spouse_next;
                                Some (kids_next, I (a_grid p) (k_grid p) V_next an kn) }));
              V_next_ns \<leftarrow> slice_at p (sol_V sl) (t + 1) kids_next no_spouse_next;
              let V_next_no_spouse = I (a_grid p) (k_grid p) V_next_ns an kn;
              Some (V_next_no_birth, V_next_birth, V_next_no_spouse) })"

definition EV_next :: "par \<Rightarrow> real \<times> real \<times> real \<Rightarrow> real" where
  "EV_next p vs =
     (case vs of (V_next_no_birth, V_next_birth, V_next_no_spouse) \<Rightarrow>
        (let EV_next_spouse = p_birth p * V_next_birth + (1 - p_birth p) * V_next_no_birth;
             EV_next_no_spouse = V_next_no_spouse
         in p_spouse p * EV_next_spouse + (1 - p_spouse p) * EV_next_no_spouse))"

definition value_of_choice ::
  "interp \<Rightarrow> par \<Rightarrow> sol \<Rightarrow> real \<Rightarrow> real \<Rightarrow> real \<Rightarrow> real \<Rightarrow> int \<Rightarrow> int \<Rightarrow> int \<Rightarrow> real option" where
  "value_of_choice I p sl cons hours assets capital kids spouse t =
     (case bound_penalty cons hours of (penalty, cons, hours) \<Rightarrow>
        do { u \<leftarrow> util p cons hours kids;
             an \<leftarrow> a_next p assets capital spouse kids cons hours t;
             let kn = k_next capital hours;
             vs \<leftarrow> V_nexts I p sl an kn kids t;
             Some (u + rho p * EV_next p vs + penalty) })"

subsection \<open>Loops over option-valued steps\<close>

text \<open>A \<^verbatim>\<open>for\<close> loop whose body may raise: the first \<open>None\<close> ends the run.\<close>

fun for_each :: "('a \<Rightarrow> 's \<Rightarrow> 's option) \<Rightarrow> 'a list \<Rightarrow> 's \<Rightarrow> 's option" where
  "for_each body [] st = Some st"
| "for_each body (x # xs) st =
     (case body x st of None \<Rightarrow> None | Some st' \<Rightarrow> for_each body xs st')"

subsection \<open>Solution\<close>

text \<open>
  \<^verbatim>\<open>scipy.optimize.minimize\<close> is outside the repository. The model takes the two calls as
  parameters: \<open>mtc obj init constr\<close> for \<^verbatim>\<open>method='trust-constr'\<close> with the bounds and the
  constraint of the last period, \<open>mlb obj init\<close> for \<^verbatim>\<open>method='L-BFGS-B'\<close> with the bounds
  of the earlier periods. Each returns the result object, of which \<^verbatim>\<open>solve\<close> reads
  \<^verbatim>\<open>x\<close> and \<^verbatim>\<open>fun\<close>.
\<close>

record res =
  res_x :: "real list"
  res_fun :: real

type_synonym objective = "real list \<Rightarrow> real option"

type_synonym minimize_tc = "objective \<Rightarrow> real list \<Rightarrow> objective \<Rightarrow> res"

type_synonym minimize_lb = "objective \<Rightarrow> real list \<Rightarrow> res"

definition upd5 :: "arr5 \<Rightarrow> nat \<Rightarrow> nat \<Rightarrow> nat \<Rightarrow> nat \<Rightarrow> nat \<Rightarrow> real \<Rightarrow> arr5" where
  "upd5 arr t i_n i_s i_a i_k v =
     arr(t := (arr t)(i_n := (arr t i_n)(i_s := (arr t i_n i_s)(i_a := (arr t i_n i_s i_a)(i_k := v)))))"

text \<open>
  The initial guess of an earlier period,
  \<^verbatim>\<open>np.array([lb_c,1.0]) if (i_n == 0 & i_s & i_a==0 & i_k==0) else res.x\<close>.
  In Python \<^verbatim>\<open>&\<close> binds tighter than \<^verbatim>\<open>==\<close> and comparisons chain, so the condition is
  \<^verbatim>\<open>i_n == (0 & i_s & i_a) == (0 & i_k) == 0\<close>. Reading \<^verbatim>\<open>res\<close> before any optimizer
  call has bound it raises.
\<close>

definition interior_init :: "nat \<Rightarrow> nat \<Rightarrow> nat \<Rightarrow> nat \<Rightarrow> res option \<Rightarrow> real list option" where
  "interior_init i_n i_s i_a i_k res =
     (let lb_c = 0.000001 in
      if int i_n = ((0 AND int i_s) AND int i_a) \<and>
         ((0 AND int i_s) AND int i_a) = (0 AND int i_k) \<and>
         (0 AND int i_k) = (0 :: int)
      then Some [lb_c, 1.0]
      else map_option res_x res)"

text \<open>The body of the innermost loop of \<^verbatim>\<open>solve\<close>, on the pair of \<^verbatim>\<open>sol\<close> and \<^verbatim>\<open>res\<close>.\<close>

definition solve_cell ::
  "interp \<Rightarrow> minimize_tc \<Rightarrow> minimize_lb \<Rightarrow> par \<Rightarrow>
   nat \<times> (nat \<times> int) \<times> (nat \<times> real) \<times> (nat \<times> real) \<times> (nat \<times> int) \<Rightarrow>
   sol \<times> res option \<Rightarrow> (sol \<times> res option) option" where
  "solve_cell I mtc mlb p cell st =
     (case (cell, st) of ((t, (i_n, kids), (i_a, assets), (i_k, capital), (i_s, spouse)), (sl, res)) \<Rightarrow>
        if int t = int (T p) - 1 then
          (let obj = (\<lambda>x. do { x0 \<leftarrow> py_get x 0; obj_last p x0 assets capital kids spouse });
               constr = (\<lambda>x. do { x0 \<leftarrow> py_get x 0; cons_last p x0 assets capital kids spouse })
           in do { wg \<leftarrow> wage_func p capital (int t);
                   q \<leftarrow> py_div (- assets) wg;
                   let hours_min = q + 1 / 10 ^ 5;
                   let hours_min = max hours_min 2.0;
                   let init_h = (if i_a = 0 then [hours_min]
                                 else [sol_h sl t i_n i_s (i_a - 1) i_k]);
                   let res = mtc obj init_h constr;
                   x0 \<leftarrow> py_get (res_x res) 0;
                   c \<leftarrow> cons_last p x0 assets capital kids spouse;
                   Some (sl\<lparr> sol_c := upd5 (sol_c sl) t i_n i_s i_a i_k c,
                             sol_h := upd5 (sol_h sl) t i_n i_s i_a i_k x0,
                             sol_V := upd5 (sol_V sl) t i_n i_s i_a i_k (- res_fun res) \<rparr>,
                         Some res) })
        else
          (let obj = (\<lambda>x. do { x0 \<leftarrow> py_get x 0; x1 \<leftarrow> py_get x 1;
                               v \<leftarrow> value_of_choice I p sl x0 x1 assets capital kids spouse (int t);
                               Some (- v) })
           in do { init \<leftarrow> interior_init i_n i_s i_a i_k res;
                   let res = mlb obj init;
                   x0 \<leftarrow> py_get (res_x res) 0;
                   x1 \<leftarrow> py_get (res_x res) 1;
                   Some (sl\<lparr> sol_c := upd5 (sol_c sl) t i_n i_s i_a i_k x0,
                             sol_h := upd5 (sol_h sl) t i_n i_s i_a i_k x1,
                             sol_V := upd5 (sol_V sl) t i_n i_s i_a i_k (- res_fun res) \<rparr>,
                         Some res) }))"

text \<open>
  The cells in the order of the five nested loops: time backwards, then children, assets,
  capital and, innermost, spouse.
\<close>

definition cells ::
  "par \<Rightarrow> (nat \<times> (nat \<times> int) \<times> (nat \<times> real) \<times> (nat \<times> real) \<times> (nat \<times> int)) list" where
  "cells p =
     concat (map (\<lambda>t.
       concat (map (\<lambda>n.
         concat (map (\<lambda>a.
           concat (map (\<lambda>k.
             map (\<lambda>s. (t, n, a, k, s)) (enumerate 0 (map int [0..<Ns p])))
           (enumerate 0 (k_grid p))))
         (enumerate 0 (a_grid p))))
       (enumerate 0 (map int [0..<Nn p]))))
     (rev [0..<T p]))"

definition solve :: "interp \<Rightarrow> minimize_tc \<Rightarrow> minimize_lb \<Rightarrow> par \<Rightarrow> sol \<Rightarrow> sol option" where
  "solve I mtc mlb p sl = map_option fst (for_each (solve_cell I mtc mlb p) (cells p) (sl, None))"

subsection \<open>Simulation\<close>

text \<open>
  The arrays of \<^verbatim>\<open>self.sim\<close>, of shape \<^verbatim>\<open>(simN, simT)\<close> and, for the initial values,
  \<^verbatim>\<open>(simN)\<close>. The loops index them with \<^verbatim>\<open>i\<close> in \<^verbatim>\<open>range(simN)\<close> and \<^verbatim>\<open>t\<close>, \<^verbatim>\<open>t+1\<close>
  below \<^verbatim>\<open>simT\<close>; only the write to column 0 can miss the array, when \<^verbatim>\<open>simT\<close> is zero.
\<close>

record sim =
  sim_c :: "nat \<Rightarrow> nat \<Rightarrow> real"
  sim_h :: "nat \<Rightarrow> nat \<Rightarrow> real"
  sim_a :: "nat \<Rightarrow> nat \<Rightarrow> real"
  sim_k :: "nat \<Rightarrow> nat \<Rightarrow> real"
  sim_n :: "nat \<Rightarrow> nat \<Rightarrow> int"
  sim_s :: "nat \<Rightarrow> nat \<Rightarrow> int"
  draws_uniform :: "nat \<Rightarrow> nat \<Rightarrow> real"
  draws_uniform_spouse :: "nat \<Rightarrow> nat \<Rightarrow> real"
  a_init :: "nat \<Rightarrow> real"
  k_init :: "nat \<Rightarrow> real"
  n_init :: "nat \<Rightarrow> int"

definition upd2 :: "(nat \<Rightarrow> nat \<Rightarrow> 'a) \<Rightarrow> nat \<Rightarrow> nat \<Rightarrow> 'a \<Rightarrow> nat \<Rightarrow> nat \<Rightarrow> 'a" where
  "upd2 arr i t v = arr(i := (arr i)(t := v))"

text \<open>The body of the loop over \<^verbatim>\<open>t\<close>, for individual \<^verbatim>\<open>i\<close>.\<close>

definition sim_step :: "interp \<Rightarrow> par \<Rightarrow> sol \<Rightarrow> nat \<Rightarrow> nat \<Rightarrow> sim \<Rightarrow> sim option" where
  "sim_step I p sl i t sm =
     (let spouse = (0 :: int);
          spouse = (if draws_uniform_spouse sm i t \<le> p_spouse p then 1 else spouse);
          sm = sm\<lparr> sim_s := upd2 (sim_s sm) i t spouse \<rparr>
      in do { c_slice \<leftarrow> slice_at p (sol_c sl) (int t) (sim_n sm i t) (sim_s sm i t);
              let sm = sm\<lparr> sim_c := upd2 (sim_c sm) i t
                              (I (a_grid p) (k_grid p) c_slice (sim_a sm i t) (sim_k sm i t)) \<rparr>;
              h_slice \<leftarrow> slice_at p (sol_h sl) (int t) (sim_n sm i t) (sim_s sm i t);
              let sm = sm\<lparr> sim_h := upd2 (sim_h sm) i t
                              (I (a_grid p) (k_grid p) h_slice (sim_a sm i t) (sim_k sm i t)) \<rparr>;
              if int t < int (simT p) - 1 then
                do { wg \<leftarrow> wage_func p (sim_k sm i t) (int t);
                     let income_w = wg * sim_h sm i t;
                         spouse_income = spouse_income_func p (sim_s sm i t) (int t);
                         income = income_w + spouse_income;
                         childcare = childcare_cost p (sim_n sm i t);
                         sm = sm\<lparr> sim_a := upd2 (sim_a sm) i (t + 1)
                                  ((1 + r p) * (sim_a sm i t + income - sim_c sm i t - childcare)) \<rparr>;
                         sm = sm\<lparr> sim_k := upd2 (sim_k sm) i (t + 1) (sim_k sm i t + sim_h sm i t) \<rparr>;
                         birth = (0 :: int);
                         birth = (if draws_uniform sm i t \<le> p_birth p \<and>
                                     sim_n sm i t < int (Nn p) - 1 \<and> sim_s sm i t = 1
                                  then 1 else birth);
                         sm = sm\<lparr> sim_n := upd2 (sim_n sm) i (t + 1) (sim_n sm i t + birth) \<rparr>
                     in Some sm }
              else Some sm })"

text \<open>The body of the loop over \<^verbatim>\<open>i\<close>: the initial states, then the periods in order.\<close>

definition sim_person :: "interp \<Rightarrow> par \<Rightarrow> sol \<Rightarrow> nat \<Rightarrow> sim \<Rightarrow> sim option" where
  "sim_person I p sl i sm =
     (if simT p = 0 then None
      else (let sm = sm\<lparr> sim_n := upd2 (sim_n sm) i 0 (n_init sm i) \<rparr>;
                sm = sm\<lparr> sim_a := upd2 (sim_a sm) i 0 (a_init sm i) \<rparr>;
                sm = sm\<lparr> sim_k := upd2 (sim_k sm) i 0 (k_init sm i) \<rparr>
            in for_each (sim_step I p sl i) [0..<simT p] sm))"

definition simulate :: "interp \<Rightarrow> par \<Rightarrow> sol \<Rightarrow> sim \<Rightarrow> sim option" where
  "simulate I p sl sm = for_each (sim_person I p sl) [0..<simN p] sm"

subsection \<open>The expected continuation value as the specification writes it\<close>

text \<open>
  The specification's formula
  \<open>p_spouse * [p_birth * V(birth, spouse) + (1 - p_birth) * V(no_birth, spouse)]
   + (1 - p_spouse) * V(no_birth, no_spouse)\<close>,
  a birth raising the children level by one up to the cap \<open>Nn - 1\<close>, to be compared with
  \<open>EV_next\<close> at \<open>V_nexts\<close>.
\<close>

definition EV_next_spec :: "interp \<Rightarrow> par \<Rightarrow> sol \<Rightarrow> real \<Rightarrow> real \<Rightarrow> int \<Rightarrow> int \<Rightarrow> real option" where
  "EV_next_spec I p sl an kn kids t =
     do { V_birth_spouse \<leftarrow> slice_at p (sol_V sl) (t + 1) (min (kids + 1) (int (Nn p) - 1)) 1;
          V_no_birth_spouse \<leftarrow> slice_at p (sol_V sl) (t + 1) kids 1;
          V_no_birth_no_spouse \<leftarrow> slice_at p (sol_V sl) (t + 1) kids 0;
          Some (p_spouse p * (p_birth p * I (a_grid p) (k_grid p) V_birth_spouse an kn
                              + (1 - p_birth p) * I (a_grid p) (k_grid p) V_no_birth_spouse an kn)
                + (1 - p_spouse p) * I (a_grid p) (k_grid p) V_no_birth_no_spouse an kn) }"

subsection \<open>What the simulation loops write\<close>

text \<open>
  \<open>transition_at\<close>: the entries of individual \<open>i\<close> at \<open>t\<close> and \<open>t + 1\<close> are related by the
  transition of one period. \<open>inputs_kept\<close>, \<open>step_writes\<close> and \<open>row_kept\<close> say which
  entries a run leaves as they were; \<open>person_done\<close> is what the loop over the periods
  of individual \<open>i\<close> establishes.
\<close>

definition transition_at :: "par \<Rightarrow> sim \<Rightarrow> nat \<Rightarrow> nat \<Rightarrow> bool" where
  "transition_at p sm i t \<longleftrightarrow>
     a_next p (sim_a sm i t) (sim_k sm i t) (sim_s sm i t) (sim_n sm i t)
       (sim_c sm i t) (sim_h sm i t) (int t) = Some (sim_a sm i (t + 1)) \<and>
     k_next (sim_k sm i t) (sim_h sm i t) = sim_k sm i (t + 1) \<and>
     sim_n sm i (t + 1) =
       sim_n sm i t +
       (if draws_uniform sm i t \<le> p_birth p \<and> sim_n sm i t < int (Nn p) - 1 \<and> sim_s sm i t = 1
        then 1 else 0)"

definition inputs_kept :: "sim \<Rightarrow> sim \<Rightarrow> bool" where
  "inputs_kept sm sm' \<longleftrightarrow>
     draws_uniform sm' = draws_uniform sm \<and>
     draws_uniform_spouse sm' = draws_uniform_spouse sm \<and>
     a_init sm' = a_init sm \<and> k_init sm' = k_init sm \<and> n_init sm' = n_init sm"

definition step_writes :: "nat \<Rightarrow> nat \<Rightarrow> sim \<Rightarrow> sim \<Rightarrow> bool" where
  "step_writes i t sm sm' \<longleftrightarrow>
     inputs_kept sm sm' \<and>
     (\<forall>i' t'. (i', t') \<noteq> (i, t) \<longrightarrow>
        sim_s sm' i' t' = sim_s sm i' t' \<and> sim_c sm' i' t' = sim_c sm i' t' \<and>
        sim_h sm' i' t' = sim_h sm i' t') \<and>
     (\<forall>i' t'. (i', t') \<noteq> (i, t + 1) \<longrightarrow>
        sim_n sm' i' t' = sim_n sm i' t' \<and> sim_a sm' i' t' = sim_a sm i' t' \<and>
        sim_k sm' i' t' = sim_k sm i' t')"

definition row_kept :: "nat \<Rightarrow> sim \<Rightarrow> sim \<Rightarrow> bool" where
  "row_kept j sm sm' \<longleftrightarrow>
     inputs_kept sm sm' \<and>
     sim_s sm' j = sim_s sm j \<and> sim_c sm' j = sim_c sm j \<and> sim_h sm' j = sim_h sm j \<and>
     sim_n sm' j = sim_n sm j \<and> sim_a sm' j = sim_a sm j \<and> sim_k sm' j = sim_k sm j"

definition person_done :: "par \<Rightarrow> sim \<Rightarrow> nat \<Rightarrow> bool" where
  "person_done p sm i \<longleftrightarrow>
     sim_n sm i 0 = n_init sm i \<and> (\<forall>t. t + 1 < simT p \<longrightarrow> transition_at p sm i t)"

subsection \<open>An interpolation and small data to evaluate on\<close>

text \<open>
  Modelled from the spec: \<^verbatim>\<open>interp_2d\<close> of \<^verbatim>\<open>consav.linear_interp\<close>, which the repository
  imports and does not contain. It is the bilinear interpolation of the slice on the grid
  cell that holds the point, the first or last cell extended linearly outside the grid,
  for grids of at least two points. The theorems below hold for every interpolation; this
  one is what they are evaluated with.
\<close>

fun grid_cell :: "real list \<Rightarrow> real \<Rightarrow> nat" where
  "grid_cell (g0 # g1 # g2 # gs) x = (if x < g1 then 0 else Suc (grid_cell (g1 # g2 # gs) x))"
| "grid_cell gs x = 0"

definition interp_2d :: interp where
  "interp_2d grid1 grid2 val xi1 xi2 =
     (let j1 = grid_cell grid1 xi1; j2 = grid_cell grid2 xi2;
          left1 = grid1 ! (j1 + 1) - xi1; right1 = xi1 - grid1 ! j1;
          left2 = grid2 ! (j2 + 1) - xi2; right2 = xi2 - grid2 ! j2;
          denom = (grid1 ! (j1 + 1) - grid1 ! j1) * (grid2 ! (j2 + 1) - grid2 ! j2);
          nom = left1 * left2 * val j1 j2 + left1 * right2 * val j1 (j2 + 1)
                + right1 * left2 * val (j1 + 1) j2 + right1 * right2 * val (j1 + 1) (j2 + 1)
      in nom / denom)"

text \<open>
  A two-period, one-individual instance of the baseline, on the grids \<open>[0, 1]\<close>; the same
  with a spouse probability of one half, and with a birth probability of zero. The
  solution arrays are constant on each slice. The optimizers \<open>echo_tc\<close> and \<open>shift_lb\<close> stand
  for \<^verbatim>\<open>minimize\<close> where a run of \<^verbatim>\<open>solve\<close> is evaluated: the first returns its initial
  guess, the second its initial guess plus one in each coordinate, so that the stored
  solution shows the guess a cell started from.
\<close>

definition small_par :: par where
  "small_par = (setup_par [0, 1] [0, 1])\<lparr> T := 2, simT := 2, simN := 1, w_vec := [1, 1] \<rparr>"

definition flat_sol :: sol where
  "flat_sol = \<lparr> sol_c = (\<lambda>t n s ia ik. 1), sol_h = (\<lambda>t n s ia ik. 1),
                sol_V = (\<lambda>t n s ia ik. of_nat n + 2 * of_nat s) \<rparr>"

definition blank_sim :: "real \<Rightarrow> sim" where
  "blank_sim d =
     \<lparr> sim_c = (\<lambda>i t. 0), sim_h = (\<lambda>i t. 0), sim_a = (\<lambda>i t. 0), sim_k = (\<lambda>i t. 0),
       sim_n = (\<lambda>i t. 0), sim_s = (\<lambda>i t. 0),
       draws_uniform = (\<lambda>i t. d), draws_uniform_spouse = (\<lambda>i t. 1 / 2),
       a_init = (\<lambda>i. 0), k_init = (\<lambda>i. 0), n_init = (\<lambda>i. 0) \<rparr>"

definition zero_birth_par :: par where
  "zero_birth_par = small_par\<lparr> p_birth := 0 \<rparr>"

definition half_spouse_par :: par where
  "half_spouse_par = small_par\<lparr> p_spouse := 1 / 2 \<rparr>"

definition echo_tc :: minimize_tc where
  "echo_tc obj init constr = \<lparr> res_x = init, res_fun = 0 \<rparr>"

definition shift_lb :: minimize_lb where
  "shift_lb obj init = \<lparr> res_x = map (\<lambda>v. v + 1) init, res_fun = 0 \<rparr>"

section \<open>Properties\<close>

subsection \<open>Array reads in range\<close>

lemma py_index_in_range: "0 \<le> j \<Longrightarrow> j < int N \<Longrightarrow> py_index N j = Some (nat j)"
  by (simp add: py_index_def)

lemma py_get_in_range: "0 \<le> j \<Longrightarrow> j < int (length xs) \<Longrightarrow> py_get xs j = Some (xs ! nat j)"
  by (simp add: py_get_def py_index_in_range)

lemma wage_func_in_range:
  "0 \<le> t \<Longrightarrow> t < int (length (w_vec p)) \<Longrightarrow>
   wage_func p capital t = Some ((1 - tau p) * (w_vec p ! nat t) * (1 + alpha p * capital))"
  by (simp add: wage_func_def py_get_in_range)

lemma wage_func_last:
  "0 < T p \<Longrightarrow> length (w_vec p) = T p \<Longrightarrow>
   wage_func p capital (int (T p) - 1) =
     Some ((1 - tau p) * (w_vec p ! (T p - 1)) * (1 + alpha p * capital))"
  by (simp add: wage_func_in_range nat_diff_distrib')

lemma slice_at_in_range:
  assumes "0 \<le> t" "t < int (T p)" "0 \<le> n" "n < int (Nn p)" "0 \<le> s" "s < int (Ns p)"
  shows "slice_at p arr t n s = Some (arr (nat t) (nat n) (nat s))"
  using assms by (simp add: slice_at_def py_index_in_range)

subsection \<open>The period reward model and the last period\<close>

text \<open>
  Claim C4. In the last period (the wage array has its \<open>T\<close> entries, \<open>T\<close> at least one),
  \<^verbatim>\<open>cons_last\<close> returns the budget
  \<open>assets + wage(capital, T-1) * hours + spouse_income(spouse, T-1) - childcare_cost(kids)\<close>,
  and the floor \<open>1e-8\<close> in its place when the budget is below it.
\<close>

theorem C4_cons_last_budget:
  assumes "0 < T p" and "length (w_vec p) = T p"
  shows "\<exists>wg. wage_func p capital (int (T p) - 1) = Some wg \<and>
           cons_last p hours assets capital kids spouse =
             Some (let budget = assets + wg * hours
                                + spouse_income_func p spouse (int (T p) - 1)
                                - childcare_cost p kids
                   in if budget < 1 / 10 ^ 8 then 1 / 10 ^ 8 else budget)"
  using assms by (simp add: cons_last_def wage_func_last Let_def max_def)

text \<open>The baseline parameters: a budget of \<open>14/5\<close> above the floor, and one below it.\<close>

theorem C4_cons_last_budget_witness:
  "0 < T (setup_par [0, 1] [0, 1]) \<and> length (w_vec (setup_par [0, 1] [0, 1])) = T (setup_par [0, 1] [0, 1]) \<and>
   cons_last (setup_par [0, 1] [0, 1]) 2 1 0 0 0 = Some (14 / 5) \<and>
   cons_last (setup_par [0, 1] [0, 1]) 2 (- 3) 0 0 0 = Some (1 / 10 ^ 8)"
proof -
  let ?p = "setup_par [0, 1] [0, 1]"
  have h: "0 < T ?p" "length (w_vec ?p) = T ?p"
    by (simp_all add: setup_par_def)
  have w: "wage_func ?p 0 (int (T ?p) - 1) = Some (9 / 10)"
    by (simp add: setup_par_def wage_func_def py_get_def py_index_def)
  have s: "spouse_income_func ?p 0 (int (T ?p) - 1) = 0" "childcare_cost ?p 0 = 0"
    by (simp_all add: setup_par_def spouse_income_func_def childcare_cost_def)
  from C4_cons_last_budget [OF h, of 0 2 1 0 0]
  obtain wg where a: "wage_func ?p 0 (int (T ?p) - 1) = Some wg"
    and b: "cons_last ?p 2 1 0 0 0 =
             Some (let budget = 1 + wg * 2 + spouse_income_func ?p 0 (int (T ?p) - 1)
                                - childcare_cost ?p 0
                   in if budget < 1 / 10 ^ 8 then 1 / 10 ^ 8 else budget)"
    by blast
  from a w have "wg = 9 / 10" by simp
  with b s have "cons_last ?p 2 1 0 0 0 = Some (14 / 5)" by simp
  moreover
  from C4_cons_last_budget [OF h, of 0 2 "- 3" 0 0]
  obtain wg' where a': "wage_func ?p 0 (int (T ?p) - 1) = Some wg'"
    and b': "cons_last ?p 2 (- 3) 0 0 0 =
             Some (let budget = - 3 + wg' * 2 + spouse_income_func ?p 0 (int (T ?p) - 1)
                                - childcare_cost ?p 0
                   in if budget < 1 / 10 ^ 8 then 1 / 10 ^ 8 else budget)"
    by blast
  from a' w have "wg' = 9 / 10" by simp
  with b' s have "cons_last ?p 2 (- 3) 0 0 0 = Some (1 / 10 ^ 8)" by simp
  ultimately show ?thesis using h by simp
qed

text \<open>
  Claim C9. For a period \<open>t\<close> in \<open>0..T-1\<close>, a tax rate below one, a positive elasticity
  and a positive base wage, as the baseline has them, \<^verbatim>\<open>wage_func\<close> is non-negative and
  monotone on capital levels \<open>0 \<le> k1 \<le> k2\<close>.
\<close>

theorem C9_wage_func_monotone:
  assumes "0 \<le> t" and "t < int (T p)" and "length (w_vec p) = T p"
    and "tau p < 1" and "0 < alpha p" and "0 < w_vec p ! nat t"
    and "0 \<le> k1" and "k1 \<le> k2"
  shows "\<exists>w1 w2. wage_func p k1 t = Some w1 \<and> wage_func p k2 t = Some w2 \<and>
           w1 \<le> w2 \<and> 0 \<le> w1"
proof -
  define b where "b = (1 - tau p) * (w_vec p ! nat t)"
  have b: "0 \<le> b" unfolding b_def using assms(4,6) by (intro mult_nonneg_nonneg) simp_all
  have w1: "wage_func p k1 t = Some (b * (1 + alpha p * k1))"
    and w2: "wage_func p k2 t = Some (b * (1 + alpha p * k2))"
    unfolding b_def using assms(1-3) by (simp_all add: wage_func_in_range)
  have "alpha p * k1 \<le> alpha p * k2"
    using assms(5,8) by (simp add: mult_left_mono)
  then have "1 + alpha p * k1 \<le> 1 + alpha p * k2" by simp
  then have le: "b * (1 + alpha p * k1) \<le> b * (1 + alpha p * k2)"
    using b by (rule mult_left_mono)
  have "0 \<le> alpha p * k1" using assms(5,7) by simp
  then have "0 \<le> 1 + alpha p * k1" by simp
  with b have nonneg: "0 \<le> b * (1 + alpha p * k1)"
    by (rule mult_nonneg_nonneg)
  show ?thesis using w1 w2 le nonneg by blast
qed

text \<open>The baseline parameters at period 3, capital 0 and 5.\<close>

theorem C9_wage_func_monotone_witness:
  "wage_func (setup_par [0, 1] [0, 1]) 0 3 = Some (9 / 10) \<and>
   wage_func (setup_par [0, 1] [0, 1]) 5 3 = Some (27 / 20) \<and>
   (\<exists>w1 w2. wage_func (setup_par [0, 1] [0, 1]) 0 3 = Some w1 \<and>
      wage_func (setup_par [0, 1] [0, 1]) 5 3 = Some w2 \<and> w1 \<le> w2 \<and> 0 \<le> w1)"
proof -
  let ?p = "setup_par [0, 1] [0, 1]"
  have "\<exists>w1 w2. wage_func ?p 0 3 = Some w1 \<and> wage_func ?p 5 3 = Some w2 \<and>
          w1 \<le> w2 \<and> 0 \<le> w1"
    by (rule C9_wage_func_monotone) (simp_all add: setup_par_def)
  moreover have "wage_func ?p 0 3 = Some (9 / 10)" "wage_func ?p 5 3 = Some (27 / 20)"
    by (simp_all add: setup_par_def wage_func_def py_get_def py_index_def)
  ultimately show ?thesis by simp
qed

lemma cons_last_floor:
  assumes "0 < T p" and "length (w_vec p) = T p"
  shows "\<exists>c. cons_last p hours assets capital kids spouse = Some c \<and> 1 / 10 ^ 8 \<le> c"
proof -
  obtain b where "cons_last p hours assets capital kids spouse = Some (max b (1 / 10 ^ 8))"
    using assms by (simp add: cons_last_def wage_func_last Let_def)
  moreover have "1 / 10 ^ 8 \<le> max b (1 / 10 ^ 8)" by (rule max.cobounded2)
  ultimately show ?thesis by blast
qed

lemma util_cons_crra:
  assumes "0 < c" and "eta p = - 2"
  shows "util_cons p c = Some (- (1 / c))"
  using assms by (simp add: util_cons_def py_pow_def py_div_def powr_neg_one)

text \<open>
  Claim C10. For every hours, assets, capital, kids and spouse, negative ones included,
  \<^verbatim>\<open>cons_last\<close> returns a value \<open>c\<close> of at least \<open>1e-8\<close>, which is positive;
  \<^verbatim>\<open>obj_last\<close> is the negated \<^verbatim>\<open>util\<close> at that consumption; with \<open>eta = -2\<close> the
  divisor \<open>1 + eta\<close> is not zero and the consumption term of \<^verbatim>\<open>util\<close> at \<open>c\<close> is the
  real number \<open>- 1 / c\<close>.
\<close>

theorem C10_cons_last_floor:
  assumes "0 < T p" and "length (w_vec p) = T p" and "eta p = - 2"
  shows "\<exists>c. cons_last p hours assets capital kids spouse = Some c \<and>
           1 / 10 ^ 8 \<le> c \<and> 0 < c \<and>
           obj_last p hours assets capital kids spouse = map_option uminus (util p c hours kids) \<and>
           1 + eta p \<noteq> 0 \<and> util_cons p c = Some (- (1 / c))"
proof -
  from cons_last_floor [OF assms(1,2)]
  obtain c where c: "cons_last p hours assets capital kids spouse = Some c"
    and ge: "1 / 10 ^ 8 \<le> c"
    by blast
  have "(0::real) < 1 / 10 ^ 8" by simp
  with ge have pos: "0 < c" by linarith
  have obj: "obj_last p hours assets capital kids spouse = map_option uminus (util p c hours kids)"
    by (cases "util p c hours kids") (simp_all add: obj_last_def c)
  have "1 + eta p \<noteq> 0" using assms(3) by simp
  with c ge pos obj util_cons_crra [OF pos assms(3)] show ?thesis by blast
qed

text \<open>Negative hours and assets under the baseline parameters: the floor, and its utility.\<close>

theorem C10_cons_last_floor_witness:
  "cons_last (setup_par [0, 1] [0, 1]) (- 1) (- 3) 0 0 0 = Some (1 / 10 ^ 8) \<and>
   util_cons (setup_par [0, 1] [0, 1]) (1 / 10 ^ 8) = Some (- (10 ^ 8))"
proof -
  let ?p = "setup_par [0, 1] [0, 1]"
  have h: "0 < T ?p" "length (w_vec ?p) = T ?p" "eta ?p = - 2"
    by (simp_all add: setup_par_def)
  from C10_cons_last_floor [OF h, of "- 1" "- 3" 0 0 0]
  obtain c where c: "cons_last ?p (- 1) (- 3) 0 0 0 = Some c"
    and u: "util_cons ?p c = Some (- (1 / c))" by blast
  have "cons_last ?p (- 1) (- 3) 0 0 0 = Some (1 / 10 ^ 8)"
    by (simp add: setup_par_def cons_last_def wage_func_def py_get_def py_index_def
        spouse_income_func_def childcare_cost_def)
  with c have "c = 1 / 10 ^ 8" by simp
  with c u show ?thesis by simp
qed

subsection \<open>Evaluation on the small data\<close>

lemma upt2: "[0..<2] = [0, 1]" "[0..<1] = [0]"
  by (simp_all add: upt_rec)

lemma interp_flat: "interp_2d [0, 1] [0, 1] (\<lambda>ia ik. v) x y = v"
  by (simp add: interp_2d_def Let_def algebra_simps)

lemmas run_simps = simulate_def sim_person_def sim_step_def small_par_def setup_par_def
  flat_sol_def blank_sim_def zero_birth_par_def
  upt2 Let_def upd2_def slice_at_def py_index_def wage_func_def py_get_def interp_flat
  spouse_income_func_def childcare_cost_def

lemma small_run:
  "map_option (\<lambda>s. (sim_n s 0 0, sim_n s 0 1, sim_s s 0 0, sim_c s 0 0, sim_h s 0 0,
                      sim_a s 0 0, sim_a s 0 1, sim_k s 0 0, sim_k s 0 1))
     (simulate interp_2d small_par flat_sol (blank_sim 0)) =
   Some (0, 1, 1, 1, 1, 0, - (51 / 500), 0, 1)"
  by (simp add: run_simps)

lemma zero_birth_run:
  "map_option (\<lambda>s. (sim_n s 0 0, sim_n s 0 1))
     (simulate interp_2d zero_birth_par flat_sol (blank_sim d)) =
   Some (0, if d \<le> 0 then 1 else 0)"
  by (simp add: run_simps)

subsection \<open>The value of a choice\<close>

lemma V_nexts_in_range:
  assumes "0 \<le> t" and "t + 1 < int (T p)" and "0 \<le> kids" and "kids < int (Nn p)"
    and "2 \<le> Ns p"
  shows "V_nexts I p sl an kn kids t =
     Some (let kids_birth = (if kids \<ge> int (Nn p) - 1 then kids else kids + 1)
           in (I (a_grid p) (k_grid p) (sol_V sl (nat (t + 1)) (nat kids) 1) an kn,
               I (a_grid p) (k_grid p) (sol_V sl (nat (t + 1)) (nat kids_birth) 1) an kn,
               I (a_grid p) (k_grid p) (sol_V sl (nat (t + 1)) (nat kids_birth) 0) an kn))"
proof (cases "kids \<ge> int (Nn p) - 1")
  case True
  then show ?thesis using assms
    by (simp add: V_nexts_def slice_at_in_range Let_def)
next
  case False
  then show ?thesis using assms
    by (simp add: V_nexts_def slice_at_in_range Let_def)
qed

lemma bound_penalty_eq:
  "bound_penalty cons hours =
     ((if cons < 0 then cons * 1000 else 0) + (if hours < 0 then hours * 1000 else 0),
      (if cons < 0 then 1 / 10 ^ 5 else cons), (if hours < 0 then 0 else hours))"
  by (simp add: bound_penalty_def Let_def)

lemma bound_penalty_idem:
  "0 \<le> cons \<Longrightarrow> 0 \<le> hours \<Longrightarrow> bound_penalty cons hours = (0, cons, hours)"
  by (simp add: bound_penalty_eq)


lemma EV_next_spec_at_cap:
  assumes "0 \<le> t" and "t + 1 < int (T p)" and "0 \<le> kids" and "kids < int (Nn p)"
    and "2 \<le> Ns p" and "kids \<ge> int (Nn p) - 1 \<or> p_spouse p = 1"
  shows "map_option (EV_next p) (V_nexts I p sl an kn kids t) = EV_next_spec I p sl an kn kids t"
proof -
  have m: "min (kids + 1) (int (Nn p) - 1) = (if kids \<ge> int (Nn p) - 1 then kids else kids + 1)"
    using assms(4) by (simp add: min_def)
  show ?thesis
    using assms
    by (auto simp add: V_nexts_in_range EV_next_spec_def EV_next_def m slice_at_in_range Let_def)
qed

lemmas voc_simps = value_of_choice_def bound_penalty_eq util_def util_cons_def util_hours_def
  py_pow_def py_div_def a_next_def k_next_def V_nexts_def EV_next_def EV_next_spec_def
  half_spouse_par_def

text \<open>
  Claim C1, evaluated on the code. The claim has the no-spouse continuation value read at
  the children level without a birth. The code reads it at \<^verbatim>\<open>kids_next\<close>, which the birth
  branch has raised to \<open>kids + 1\<close> when \<open>kids < Nn - 1\<close>. With a spouse probability of one
  half, no children, and value slices \<open>V[1, n, s] = n + 2 s\<close>, the code's expected
  continuation value is \<open>31/20\<close>, the specification's formula gives \<open>21/20\<close>, and the
  value of the choice (consumption 1, hours 0) is \<open>519/1000\<close> in place of \<open>29/1000\<close>. By
  \<open>EV_next_spec_at_cap\<close> the two agree at the cap and when the spouse probability is one,
  as in the baseline.
\<close>

theorem C1_no_spouse_value_at_birth_level:
  "map_option (EV_next half_spouse_par) (V_nexts interp_2d half_spouse_par flat_sol (- (51 / 50)) 0 0 0)
     = Some (31 / 20) \<and>
   EV_next_spec interp_2d half_spouse_par flat_sol (- (51 / 50)) 0 0 0 = Some (21 / 20) \<and>
   a_next half_spouse_par 0 0 0 0 1 0 0 = Some (- (51 / 50)) \<and>
   value_of_choice interp_2d half_spouse_par flat_sol 1 0 0 0 0 0 0 = Some (519 / 1000)"
  by (simp add: voc_simps run_simps)

text \<open>
  Claim C3. For a cell of an earlier period (\<open>0 \<le> t\<close>, \<open>t + 1 < T\<close>, \<open>0 \<le> kids < Nn\<close>, two
  spouse states), the no-birth value is the interpolation of the slice
  \<open>V[t+1, kids, 1]\<close>; the birth value is that same value when \<open>kids \<ge> Nn - 1\<close>, and the
  interpolation of the slice \<open>V[t+1, kids+1, 1]\<close> only when \<open>kids < Nn - 1\<close>.
\<close>

theorem C3_birth_value_at_cap:
  assumes "0 \<le> t" and "t + 1 < int (T p)" and "0 \<le> kids" and "kids < int (Nn p)"
    and "2 \<le> Ns p"
  shows "map_option (\<lambda>(V_next_no_birth, V_next_birth, V_next_no_spouse).
                       (V_next_no_birth, V_next_birth))
           (V_nexts I p sl an kn kids t) =
         Some (let no_birth = I (a_grid p) (k_grid p) (sol_V sl (nat (t + 1)) (nat kids) 1) an kn
               in (no_birth,
                   if kids \<ge> int (Nn p) - 1 then no_birth
                   else I (a_grid p) (k_grid p) (sol_V sl (nat (t + 1)) (nat (kids + 1)) 1) an kn))"
  using assms by (simp add: V_nexts_in_range Let_def)

text \<open>
  At the cap (one child of at most one) both values are 3; below it they are 2 and 3.
\<close>

theorem C3_birth_value_at_cap_witness:
  "map_option (\<lambda>(V_next_no_birth, V_next_birth, V_next_no_spouse).
                       (V_next_no_birth, V_next_birth))
           (V_nexts interp_2d small_par flat_sol 0 0 1 0) = Some (3, 3) \<and>
   map_option (\<lambda>(V_next_no_birth, V_next_birth, V_next_no_spouse).
                       (V_next_no_birth, V_next_birth))
           (V_nexts interp_2d small_par flat_sol 0 0 0 0) = Some (2, 3)"
  using C3_birth_value_at_cap [of 0 small_par 1 interp_2d flat_sol 0 0]
    C3_birth_value_at_cap [of 0 small_par 0 interp_2d flat_sol 0 0]
  by (simp add: run_simps)

text \<open>
  Claim C5, as amended. \<^verbatim>\<open>value_of_choice\<close> returns utility plus the discounted expected
  continuation value plus the penalty, where utility, next-period assets and capital and
  the continuation values are evaluated at the clamped consumption and hours: a negative
  consumption adds \<open>1000 * cons\<close> to the penalty and is replaced by \<open>1e-5\<close>, a negative
  hours adds \<open>1000 * hours\<close> and is replaced by \<open>0\<close> (zero, not a positive value); a
  non-negative input is kept as it is and adds nothing, so that for non-negative
  consumption and hours the penalty is zero.
\<close>

theorem C5_penalty_and_clamp:
  "value_of_choice I p sl cons hours assets capital kids spouse t =
     (let c = (if cons < 0 then 1 / 10 ^ 5 else cons);
          h = (if hours < 0 then 0 else hours);
          penalty = (if cons < 0 then 1000 * cons else 0)
                    + (if hours < 0 then 1000 * hours else 0)
      in do { u \<leftarrow> util p c h kids;
              an \<leftarrow> a_next p assets capital spouse kids c h t;
              vs \<leftarrow> V_nexts I p sl an (k_next capital h) kids t;
              Some (u + rho p * EV_next p vs + penalty) })"
proof -
  define c where "c = (if cons < 0 then 1 / 10 ^ 5 else cons)"
  define h where "h = (if hours < 0 then 0 else hours)"
  define pen where "pen = (if cons < 0 then 1000 * cons else 0)
                          + (if hours < 0 then 1000 * hours else 0)"
  have b: "bound_penalty cons hours = (pen, c, h)"
    by (simp add: bound_penalty_eq pen_def c_def h_def)
  have "value_of_choice I p sl cons hours assets capital kids spouse t =
        do { u \<leftarrow> util p c h kids;
             an \<leftarrow> a_next p assets capital spouse kids c h t;
             vs \<leftarrow> V_nexts I p sl an (k_next capital h) kids t;
             Some (u + rho p * EV_next p vs + pen) }"
    unfolding value_of_choice_def b by simp
  then show ?thesis unfolding pen_def c_def h_def Let_def .
qed

text \<open>
  Consumption and hours both \<open>-1\<close>: utility \<open>-100000\<close> at consumption \<open>1e-5\<close> and hours 0,
  and a penalty of \<open>-2000\<close>. Consumption 1 and hours 0: no penalty.
\<close>

theorem C5_penalty_and_clamp_witness:
  "util small_par (1 / 10 ^ 5) 0 0 = Some (- 100000) \<and>
   a_next small_par 0 0 0 0 (1 / 10 ^ 5) 0 0 = Some (- (51 / 5000000)) \<and>
   value_of_choice interp_2d small_par flat_sol (- 1) (- 1) 0 0 0 0 0 =
     Some (- 100000 + 49 / 50 * (21 / 10) + (- 2000)) \<and>
   util small_par 1 0 0 = Some (- 1) \<and>
   value_of_choice interp_2d small_par flat_sol 1 0 0 0 0 0 0 =
     Some (- 1 + 49 / 50 * (21 / 10) + 0)"
proof -
  have u: "util small_par (1 / 10 ^ 5) 0 0 = Some (- 100000)" "util small_par 1 0 0 = Some (- 1)"
    by (simp_all add: util_def util_cons_def util_hours_def py_pow_def py_div_def
        small_par_def setup_par_def)
  have a: "a_next small_par 0 0 0 0 (1 / 10 ^ 5) 0 0 = Some (- (51 / 5000000))"
    "a_next small_par 0 0 0 0 1 0 0 = Some (- (51 / 50))"
    by (simp_all add: a_next_def run_simps)
  have v: "V_nexts interp_2d small_par flat_sol an (k_next 0 0) 0 0 = Some (2, 3, 1)" for an
    by (simp add: V_nexts_def k_next_def run_simps)
  have e: "EV_next small_par (2, 3, 1) = 21 / 10" "rho small_par = 49 / 50"
    by (simp_all add: EV_next_def small_par_def setup_par_def)
  have u': "util small_par (1 / 100000) 0 0 = Some (- 100000)"
    and a': "a_next small_par 0 0 0 0 (1 / 100000) 0 0 = Some (- (51 / 5000000))"
    using u(1) a(1) by simp_all
  have "value_of_choice interp_2d small_par flat_sol (- 1) (- 1) 0 0 0 0 0 =
          Some (- 100000 + 49 / 50 * (21 / 10) + (- 2000))"
    using C5_penalty_and_clamp [of interp_2d small_par flat_sol "- 1" "- 1" 0 0 0 0 0]
    by (simp add: Let_def u' a' v e)
  moreover
  have "value_of_choice interp_2d small_par flat_sol 1 0 0 0 0 0 0 =
          Some (- 1 + 49 / 50 * (21 / 10) + 0)"
    using C5_penalty_and_clamp [of interp_2d small_par flat_sol 1 0 0 0 0 0 0]
    by (simp add: Let_def u a v e)
  ultimately show ?thesis using u a by simp
qed

text \<open>
  Claim C5 as stated fails: at hours \<open>-1\<close> the hours that utility and budget are
  evaluated at is \<open>0\<close>, which is not positive.
\<close>

theorem C5_hours_clamp_counterexample:
  "bound_penalty 1 (- 1) = (- 1000, 1, 0) \<and> \<not> 0 < snd (snd (bound_penalty 1 (- 1)))"
  by (simp add: bound_penalty_eq)

subsection \<open>The initial guess in solve\<close>

lemma interior_init_eq:
  "interior_init i_n i_s i_a i_k res =
     (if i_n = 0 then Some [1 / 10 ^ 6, 1] else map_option res_x res)"
  by (simp add: interior_init_def Let_def)

lemma solve_cell_ignores_previous:
  assumes "int t \<noteq> int (T p) - 1"
  shows "solve_cell I mtc mlb p (t, (0, kids), ca, ck, cs) (sl, res) =
         solve_cell I mtc mlb p (t, (0, kids), ca, ck, cs) (sl, None)"
  using assms by (cases ca; cases ck; cases cs) (simp add: solve_cell_def interior_init_eq)

lemma solve_small:
  "map_option (\<lambda>sl. (sol_c sl 0 0 0 0 0, sol_c sl 0 0 1 0 0, sol_c sl 0 0 0 1 0,
                       sol_c sl 0 1 0 0 0, sol_c sl 0 1 1 0 0))
     (solve interp_2d echo_tc shift_lb small_par flat_sol) =
   Some (1 + 1 / 10 ^ 6, 1 + 1 / 10 ^ 6, 1 + 1 / 10 ^ 6, 2 + 1 / 10 ^ 6, 3 + 1 / 10 ^ 6)"
  by (simp add: solve_def solve_cell_def cells_def small_par_def setup_par_def upt2
      enumerate_eq_zip interior_init_eq echo_tc_def shift_lb_def upd5_def py_get_def
      py_index_def py_div_def wage_func_def cons_last_def spouse_income_func_def
      childcare_cost_def Let_def flat_sol_def)

text \<open>
  Claim C2, evaluated on the code. The claim has the default guess \<open>(lb_c, 1.0)\<close> at one
  cell only and every other cell started from the solution of the cell before it. In the
  code the condition on the indices is true at every cell with \<open>i_n = 0\<close>: at the cell
  \<open>(i_n, i_s, i_a, i_k) = (0, 1, 0, 0)\<close>, the second of an earlier period, and at
  \<open>(0, 0, 1, 0)\<close> the guess is the default one, whatever the cell before returned, here
  \<open>(3, 4)\<close>; at \<open>(1, 0, 0, 0)\<close> it is \<open>(3, 4)\<close>. In a run of \<^verbatim>\<open>solve\<close> whose optimizer
  returns its guess plus one, the first two cells of period 0 both store the consumption
  \<open>1 + lb_c\<close>, where a start from the first cell's solution would store \<open>2 + lb_c\<close> at the
  second; the cells with \<open>i_n = 1\<close> store \<open>2 + lb_c\<close> and \<open>3 + lb_c\<close>.
\<close>

theorem C2_default_guess_at_later_cells:
  "interior_init 0 1 0 0 (Some \<lparr> res_x = [3, 4], res_fun = 0 \<rparr>) = Some [1 / 10 ^ 6, 1] \<and>
   interior_init 0 0 1 0 (Some \<lparr> res_x = [3, 4], res_fun = 0 \<rparr>) = Some [1 / 10 ^ 6, 1] \<and>
   interior_init 1 0 0 0 (Some \<lparr> res_x = [3, 4], res_fun = 0 \<rparr>) = Some [3, 4] \<and>
   map_option (\<lambda>sl. (sol_c sl 0 0 0 0 0, sol_c sl 0 0 1 0 0, sol_c sl 0 1 0 0 0, sol_c sl 0 1 1 0 0))
     (solve interp_2d echo_tc shift_lb small_par flat_sol) =
   Some (1 + 1 / 10 ^ 6, 1 + 1 / 10 ^ 6, 2 + 1 / 10 ^ 6, 3 + 1 / 10 ^ 6)"
proof -
  have "map_option (\<lambda>sl. (sol_c sl 0 0 0 0 0, sol_c sl 0 0 1 0 0, sol_c sl 0 1 0 0 0,
                           sol_c sl 0 1 1 0 0))
          (solve interp_2d echo_tc shift_lb small_par flat_sol) =
        Some (1 + 1 / 10 ^ 6, 1 + 1 / 10 ^ 6, 2 + 1 / 10 ^ 6, 3 + 1 / 10 ^ 6)"
    using solve_small
    by (cases "solve interp_2d echo_tc shift_lb small_par flat_sol") simp_all
  then show ?thesis by (simp add: interior_init_eq)
qed

subsection \<open>The simulated panel\<close>

lemma for_each_invariant:
  assumes "for_each body xs st = Some st'" and "Q st"
    and "\<And>x s s'. x \<in> set xs \<Longrightarrow> body x s = Some s' \<Longrightarrow> Q s \<Longrightarrow> Q s'"
  shows "Q st'"
  using assms
proof (induction xs arbitrary: st)
  case Nil
  then show ?case by simp
next
  case (Cons x xs)
  from Cons.prems(1) obtain s1 where s1: "body x st = Some s1" and rest: "for_each body xs s1 = Some st'"
    by (auto split: option.splits)
  have "Q s1" using Cons.prems(3) [of x st s1] s1 Cons.prems(2) by simp
  moreover have "\<And>y s s'. y \<in> set xs \<Longrightarrow> body y s = Some s' \<Longrightarrow> Q s \<Longrightarrow> Q s'"
    using Cons.prems(3) by (meson list.set_intros(2))
  ultimately show ?case using Cons.IH [OF rest] by blast
qed

lemma sim_step_writes:
  assumes "sim_step I p sl i t sm = Some sm'"
  shows "step_writes i t sm sm'"
  using assms
  by (auto simp add: sim_step_def step_writes_def inputs_kept_def Let_def upd2_def
      split: if_splits bind_splits)

lemma step_writes_transition:
  assumes "step_writes i2 t2 sm sm'" and "transition_at p sm i t" and "i2 \<noteq> i \<or> t < t2"
  shows "transition_at p sm' i t"
proof -
  have a: "(i, t) \<noteq> (i2, t2)" "(i, t) \<noteq> (i2, t2 + 1)" "(i, t + 1) \<noteq> (i2, t2 + 1)"
    using assms(3) by auto
  from assms(1) a have eqs:
    "sim_s sm' i t = sim_s sm i t" "sim_c sm' i t = sim_c sm i t" "sim_h sm' i t = sim_h sm i t"
    "sim_n sm' i t = sim_n sm i t" "sim_a sm' i t = sim_a sm i t" "sim_k sm' i t = sim_k sm i t"
    "sim_n sm' i (t + 1) = sim_n sm i (t + 1)" "sim_a sm' i (t + 1) = sim_a sm i (t + 1)"
    "sim_k sm' i (t + 1) = sim_k sm i (t + 1)" "draws_uniform sm' = draws_uniform sm"
    unfolding step_writes_def inputs_kept_def by blast+
  show ?thesis using assms(2) unfolding transition_at_def eqs .
qed

lemma sim_step_transition:
  assumes "sim_step I p sl i t sm = Some sm'" and "t + 1 < simT p"
  shows "transition_at p sm' i t"
proof -
  have lt: "int t < int (simT p) - 1" using assms(2) by simp
  define sp :: int where "sp = (if draws_uniform_spouse sm i t \<le> p_spouse p then 1 else 0)"
  from assms(1) lt obtain cs hs wg where
    cs: "slice_at p (sol_c sl) (int t) (sim_n sm i t) sp = Some cs"
    and hs: "slice_at p (sol_h sl) (int t) (sim_n sm i t) sp = Some hs"
    and wg: "wage_func p (sim_k sm i t) (int t) = Some wg"
    unfolding sim_step_def sp_def
    by (simp add: Let_def upd2_def split: bind_splits)
  define cv where "cv = I (a_grid p) (k_grid p) cs (sim_a sm i t) (sim_k sm i t)"
  define hv where "hv = I (a_grid p) (k_grid p) hs (sim_a sm i t) (sim_k sm i t)"
  have now: "sim_s sm' i t = sp" "sim_c sm' i t = cv" "sim_h sm' i t = hv"
    "sim_n sm' i t = sim_n sm i t" "sim_a sm' i t = sim_a sm i t" "sim_k sm' i t = sim_k sm i t"
    "draws_uniform sm' = draws_uniform sm"
    using assms(1) lt cs hs wg unfolding sim_step_def sp_def cv_def hv_def
    by (clarsimp simp add: Let_def upd2_def)+
  have nxt: "sim_a sm' i (t + 1) =
      (1 + r p) * (sim_a sm i t + (wg * hv + spouse_income_func p sp (int t)) - cv
                   - childcare_cost p (sim_n sm i t))"
    "sim_k sm' i (t + 1) = sim_k sm i t + hv"
    "sim_n sm' i (t + 1) = sim_n sm i t +
       (if draws_uniform sm i t \<le> p_birth p \<and> sim_n sm i t < int (Nn p) - 1 \<and> sp = 1
        then 1 else 0)"
    using assms(1) lt cs hs wg unfolding sim_step_def sp_def cv_def hv_def
    by (clarsimp simp add: Let_def upd2_def)+
  show ?thesis
    unfolding transition_at_def now nxt
    by (simp add: a_next_def k_next_def wg Let_def)
qed

lemma sim_periods_transition:
  assumes "for_each (sim_step I p sl i) ts sm = Some sm'" and "sorted_wrt (<) ts"
    and "t \<in> set ts" and "t + 1 < simT p"
  shows "transition_at p sm' i t"
  using assms(1-3)
proof (induction ts arbitrary: sm)
  case Nil
  then show ?case by simp
next
  case (Cons x xs)
  from Cons.prems(1) obtain s1 where s1: "sim_step I p sl i x sm = Some s1"
    and rest: "for_each (sim_step I p sl i) xs s1 = Some sm'"
    by (auto split: option.splits)
  show ?case
  proof (cases "t = x")
    case True
    have start: "transition_at p s1 i t"
      using sim_step_transition [OF s1] assms(4) True by simp
    have keep: "transition_at p s' i t"
      if "y \<in> set xs" and "sim_step I p sl i y s = Some s'" and "transition_at p s i t"
      for y s s'
    proof -
      from that(1) Cons.prems(2) True have "t < y" by simp
      then have "i \<noteq> i \<or> t < y" by simp
      with sim_step_writes [OF that(2)] that(3) show ?thesis
        by (rule step_writes_transition)
    qed
    show ?thesis
      by (rule for_each_invariant [where Q = "\<lambda>s. transition_at p s i t", OF rest start keep])
  next
    case False
    with Cons.prems have "sorted_wrt (<) xs" and "t \<in> set xs" by simp_all
    then show ?thesis by (rule Cons.IH [OF rest])
  qed
qed

lemma inputs_kept_refl: "inputs_kept sm sm"
  by (simp add: inputs_kept_def)

lemma inputs_kept_trans: "inputs_kept s1 s2 \<Longrightarrow> inputs_kept s2 s3 \<Longrightarrow> inputs_kept s1 s3"
  by (simp add: inputs_kept_def)

lemma step_writes_row_kept:
  assumes "step_writes i t s s'" and "row_kept j sm s" and "j \<noteq> i"
  shows "row_kept j sm s'"
proof -
  from assms(1,3) have rows:
    "sim_s s' j = sim_s s j" "sim_c s' j = sim_c s j" "sim_h s' j = sim_h s j"
    "sim_n s' j = sim_n s j" "sim_a s' j = sim_a s j" "sim_k s' j = sim_k s j"
    unfolding step_writes_def by (auto intro!: ext)
  from assms(1) have "inputs_kept s s'" by (simp add: step_writes_def)
  with assms(2) have "inputs_kept sm s'" using inputs_kept_trans row_kept_def by blast
  with rows assms(2) show ?thesis by (simp add: row_kept_def)
qed

lemma sim_person_row_kept:
  assumes "sim_person I p sl i sm = Some sm'" and "j \<noteq> i"
  shows "row_kept j sm sm'"
proof -
  define s0 where "s0 = sm\<lparr> sim_n := upd2 (sim_n sm) i 0 (n_init sm i),
                            sim_a := upd2 (sim_a sm) i 0 (a_init sm i),
                            sim_k := upd2 (sim_k sm) i 0 (k_init sm i) \<rparr>"
  from assms(1) have run: "for_each (sim_step I p sl i) [0..<simT p] s0 = Some sm'"
    by (simp add: sim_person_def s0_def Let_def split: if_splits)
  have "row_kept j sm s0" using assms(2)
    by (simp add: row_kept_def inputs_kept_def s0_def upd2_def)
  moreover have "row_kept j sm s'"
    if "sim_step I p sl i t s = Some s'" and "row_kept j sm s" for t s s'
    using sim_step_writes [OF that(1)] that(2) assms(2) by (rule step_writes_row_kept)
  ultimately show ?thesis
    by (rule for_each_invariant [where Q = "row_kept j sm", OF run])
qed

lemma sim_person_inputs_kept:
  assumes "sim_person I p sl i sm = Some sm'"
  shows "inputs_kept sm sm' \<and> sim_n sm' i 0 = n_init sm i"
proof -
  define s0 where "s0 = sm\<lparr> sim_n := upd2 (sim_n sm) i 0 (n_init sm i),
                            sim_a := upd2 (sim_a sm) i 0 (a_init sm i),
                            sim_k := upd2 (sim_k sm) i 0 (k_init sm i) \<rparr>"
  define Q where "Q = (\<lambda>s. inputs_kept sm s \<and> sim_n s i 0 = n_init sm i)"
  from assms(1) have run: "for_each (sim_step I p sl i) [0..<simT p] s0 = Some sm'"
    by (simp add: sim_person_def s0_def Let_def split: if_splits)
  have q0: "Q s0"
    by (simp add: Q_def inputs_kept_def s0_def upd2_def)
  have step: "\<And>t s s'. t \<in> set [0..<simT p] \<Longrightarrow> sim_step I p sl i t s = Some s' \<Longrightarrow> Q s \<Longrightarrow> Q s'"
  proof -
    fix t s s'
    assume st: "sim_step I p sl i t s = Some s'" and q: "Q s"
    from sim_step_writes [OF st] have w: "inputs_kept s s'" "sim_n s' i 0 = sim_n s i 0"
      unfolding step_writes_def by auto
    with q show "Q s'" unfolding Q_def using inputs_kept_trans by auto
  qed
  have "Q sm'"
    by (rule for_each_invariant [where Q = Q, OF run q0 step])
  then show ?thesis by (simp add: Q_def)
qed

lemma sim_person_done:
  assumes "sim_person I p sl i sm = Some sm'"
  shows "person_done p sm' i"
proof -
  define s0 where "s0 = sm\<lparr> sim_n := upd2 (sim_n sm) i 0 (n_init sm i),
                            sim_a := upd2 (sim_a sm) i 0 (a_init sm i),
                            sim_k := upd2 (sim_k sm) i 0 (k_init sm i) \<rparr>"
  from assms(1) have run: "for_each (sim_step I p sl i) [0..<simT p] s0 = Some sm'"
    by (simp add: sim_person_def s0_def Let_def split: if_splits)
  have tr: "transition_at p sm' i t" if "t + 1 < simT p" for t
    using sim_periods_transition [OF run _ _ that] that by simp
  from sim_person_inputs_kept [OF assms(1)]
  have "sim_n sm' i 0 = n_init sm' i" by (simp add: inputs_kept_def)
  with tr show ?thesis by (simp add: person_done_def)
qed

lemma row_kept_done:
  assumes "row_kept j sm sm'" and "person_done p sm j"
  shows "person_done p sm' j"
  using assms
  unfolding row_kept_def inputs_kept_def person_done_def transition_at_def
  by simp

lemma simulate_persons_done:
  assumes "for_each (sim_person I p sl) js sm = Some sm'" and "distinct js" and "i \<in> set js"
  shows "person_done p sm' i"
  using assms
proof (induction js arbitrary: sm)
  case Nil
  then show ?case by simp
next
  case (Cons x xs)
  from Cons.prems(1) obtain s1 where s1: "sim_person I p sl x sm = Some s1"
    and rest: "for_each (sim_person I p sl) xs s1 = Some sm'"
    by (auto split: option.splits)
  show ?case
  proof (cases "i = x")
    case True
    have d: "person_done p s1 i" using sim_person_done [OF s1] True by simp
    have keep: "person_done p s' i"
      if "y \<in> set xs" and "sim_person I p sl y s = Some s'" and "person_done p s i"
      for y s s'
    proof -
      from that(1) Cons.prems(2) True have "i \<noteq> y" by auto
      from sim_person_row_kept [OF that(2) this] that(3) show ?thesis
        by (rule row_kept_done)
    qed
    show ?thesis
      by (rule for_each_invariant [where Q = "\<lambda>s. person_done p s i", OF rest d keep])
  next
    case False
    with Cons.prems have "distinct xs" and "i \<in> set xs" by simp_all
    then show ?thesis by (rule Cons.IH [OF rest])
  qed
qed

lemma simulate_inputs_kept:
  assumes "simulate I p sl sm = Some sm'"
  shows "inputs_kept sm sm'"
proof -
  have run: "for_each (sim_person I p sl) [0..<simN p] sm = Some sm'"
    using assms by (simp add: simulate_def)
  have keep: "inputs_kept sm s'"
    if "sim_person I p sl x s = Some s'" and "inputs_kept sm s" for x s s'
    using that(2) sim_person_inputs_kept [OF that(1)] by (blast intro: inputs_kept_trans)
  show ?thesis
    by (rule for_each_invariant [where Q = "inputs_kept sm", OF run inputs_kept_refl keep])
qed

lemma simulate_done:
  assumes "simulate I p sl sm = Some sm'" and "i < simN p"
  shows "person_done p sm' i"
  using assms simulate_persons_done [of I p sl "[0..<simN p]" sm sm' i]
  by (simp add: simulate_def)

text \<open>
  \<^verbatim>\<open>simulate\<close> returns on every well-formed input: at least one period, no more periods
  than the solution has, the wage array of length \<open>T\<close>, two spouse states, and initial
  children counts within \<open>0..Nn-1\<close>. The theorems on the simulated panel below are about
  every run that returns.
\<close>

lemma for_each_upt_total:
  assumes "Q a st" and "a \<le> b"
    and "\<And>t s. a \<le> t \<Longrightarrow> t < b \<Longrightarrow> Q t s \<Longrightarrow> \<exists>s'. body t s = Some s' \<and> Q (Suc t) s'"
  shows "\<exists>st'. for_each body [a..<b] st = Some st' \<and> Q b st'"
  using assms
proof (induction "b - a" arbitrary: a st)
  case 0
  then show ?case by simp
next
  case (Suc n)
  then have lt: "a < b" by simp
  with Suc.prems(1,3) obtain s1 where s1: "body a st = Some s1" and q1: "Q (Suc a) s1"
    by blast
  have n: "n = b - Suc a" using Suc.hyps(2) by simp
  have le: "Suc a \<le> b" using lt by simp
  have step: "\<And>t s. Suc a \<le> t \<Longrightarrow> t < b \<Longrightarrow> Q t s \<Longrightarrow> \<exists>s'. body t s = Some s' \<and> Q (Suc t) s'"
    using Suc.prems(3) by simp
  from Suc.hyps(1) [OF n q1 le step]
  obtain st' where "for_each body [Suc a..<b] s1 = Some st'" and "Q b st'" by blast
  then show ?case using s1 lt by (simp add: upt_conv_Cons)
qed

lemma sim_step_returns:
  assumes "t < simT p" and "simT p \<le> T p" and "length (w_vec p) = T p" and "2 \<le> Ns p"
    and "0 \<le> sim_n sm i t" and "sim_n sm i t < int (Nn p)"
  shows "\<exists>sm'. sim_step I p sl i t sm = Some sm' \<and>
           (t + 1 < simT p \<longrightarrow> 0 \<le> sim_n sm' i (t + 1) \<and> sim_n sm' i (t + 1) < int (Nn p))"
proof -
  have t: "0 \<le> int t" "int t < int (T p)" "int t < int (length (w_vec p))"
    using assms(1-3) by simp_all
  have sp: "(0::int) \<le> 0" "(0::int) < int (Ns p)" "(0::int) \<le> 1" "(1::int) < int (Ns p)"
    using assms(4) by simp_all
  have sl0: "slice_at p arr (int t) (sim_n sm i t) 0 = Some (arr t (nat (sim_n sm i t)) 0)"
    for arr
    using slice_at_in_range [OF t(1,2) assms(5,6) sp(1,2)] by simp
  have sl1: "slice_at p arr (int t) (sim_n sm i t) 1 = Some (arr t (nat (sim_n sm i t)) 1)"
    for arr
    using slice_at_in_range [OF t(1,2) assms(5,6) sp(3,4)] by simp
  have wg: "wage_func p cap (int t) =
      Some ((1 - tau p) * (w_vec p ! t) * (1 + alpha p * cap))" for cap
    using wage_func_in_range [OF t(1,3)] by simp
  show ?thesis
    using assms(5,6)
    by (simp add: sim_step_def Let_def upd2_def sl0 sl1 wg)
qed

lemma sim_person_returns:
  assumes "0 < simT p" and "simT p \<le> T p" and "length (w_vec p) = T p" and "2 \<le> Ns p"
    and "0 \<le> n_init sm i" and "n_init sm i < int (Nn p)"
  shows "\<exists>sm'. sim_person I p sl i sm = Some sm'"
proof -
  define s0 where "s0 = sm\<lparr> sim_n := upd2 (sim_n sm) i 0 (n_init sm i),
                            sim_a := upd2 (sim_a sm) i 0 (a_init sm i),
                            sim_k := upd2 (sim_k sm) i 0 (k_init sm i) \<rparr>"
  define Q where "Q = (\<lambda>t (s::sim). t < simT p \<longrightarrow> 0 \<le> sim_n s i t \<and> sim_n s i t < int (Nn p))"
  have q0: "Q 0 s0" using assms(5,6) by (simp add: Q_def s0_def upd2_def)
  have step: "\<exists>s'. sim_step I p sl i t s = Some s' \<and> Q (Suc t) s'"
    if "0 \<le> t" and "t < simT p" and "Q t s" for t s
  proof -
    from that(2,3) have "0 \<le> sim_n s i t" and "sim_n s i t < int (Nn p)" by (simp_all add: Q_def)
    from sim_step_returns [OF that(2) assms(2-4) this, of I sl]
    show ?thesis by (simp add: Q_def)
  qed
  have "\<exists>st'. for_each (sim_step I p sl i) [0..<simT p] s0 = Some st' \<and> Q (simT p) st'"
    using q0 _ step by (rule for_each_upt_total) simp
  then show ?thesis using assms(1) by (auto simp add: sim_person_def Let_def s0_def)
qed

lemma simulate_returns:
  assumes "0 < simT p" and "simT p \<le> T p" and "length (w_vec p) = T p" and "2 \<le> Ns p"
    and "\<forall>i<simN p. 0 \<le> n_init sm i \<and> n_init sm i < int (Nn p)"
  shows "\<exists>sm'. simulate I p sl sm = Some sm'"
proof -
  define Q where "Q = (\<lambda>(i::nat) (s::sim). inputs_kept sm s)"
  have q0: "Q 0 sm" by (simp add: Q_def inputs_kept_refl)
  have step: "\<exists>s'. sim_person I p sl i s = Some s' \<and> Q (Suc i) s'"
    if "0 \<le> i" and "i < simN p" and "Q i s" for i s
  proof -
    from that(3) have k: "inputs_kept sm s" by (simp add: Q_def)
    then have "n_init s = n_init sm" by (simp add: inputs_kept_def)
    with assms(5) that(2) have "0 \<le> n_init s i" and "n_init s i < int (Nn p)" by simp_all
    from sim_person_returns [OF assms(1-4) this, of I sl]
    obtain s' where s': "sim_person I p sl i s = Some s'" by blast
    from sim_person_inputs_kept [OF s'] k have "inputs_kept sm s'"
      by (blast intro: inputs_kept_trans)
    with s' show ?thesis by (simp add: Q_def)
  qed
  have "\<exists>st'. for_each (sim_person I p sl) [0..<simN p] sm = Some st' \<and> Q (simN p) st'"
    using q0 _ step by (rule for_each_upt_total) simp
  then show ?thesis by (auto simp add: simulate_def)
qed

lemma person_done_capped:
  assumes "person_done p sm i" and "n_init sm i \<le> int (Nn p) - 1" and "t < simT p"
  shows "sim_n sm i t \<le> int (Nn p) - 1"
  using assms(3)
proof (induction t)
  case 0
  then show ?case using assms(1,2) by (simp add: person_done_def)
next
  case (Suc t)
  then have "sim_n sm i t \<le> int (Nn p) - 1" and "t + 1 < simT p" by simp_all
  moreover from this(2) assms(1) have "transition_at p sm i t" by (simp add: person_done_def)
  ultimately show ?case by (simp add: transition_at_def split: if_splits)
qed

text \<open>
  Claim C6. After \<^verbatim>\<open>simulate\<close>, for every individual \<open>i\<close> and periods \<open>t\<close>, \<open>t + 1\<close> and
  \<open>u\<close> of the simulation: the children count does not decrease from \<open>t\<close> to \<open>t + 1\<close>; it
  increases only when the spouse indicator at \<open>t\<close> is 1 and the birth draw is at most
  \<open>p_birth\<close>; and it is at most \<open>Nn - 1\<close> at every period when the initial count is.
\<close>

theorem C6_children_monotone_capped:
  assumes "simulate I p sl sm = Some sm'" and "i < simN p" and "t + 1 < simT p" and "u < simT p"
  shows "sim_n sm' i t \<le> sim_n sm' i (t + 1) \<and>
         (sim_n sm' i t < sim_n sm' i (t + 1) \<longrightarrow>
            sim_s sm' i t = 1 \<and> draws_uniform sm i t \<le> p_birth p) \<and>
         (n_init sm i \<le> int (Nn p) - 1 \<longrightarrow> sim_n sm' i u \<le> int (Nn p) - 1)"
proof -
  have pd: "person_done p sm' i" using assms(1,2) by (rule simulate_done)
  have kept: "inputs_kept sm sm'" using assms(1) by (rule simulate_inputs_kept)
  from pd assms(3) have tr: "transition_at p sm' i t" by (simp add: person_done_def)
  from kept have eq: "draws_uniform sm' = draws_uniform sm" "n_init sm' = n_init sm"
    by (simp_all add: inputs_kept_def)
  have mono: "sim_n sm' i t \<le> sim_n sm' i (t + 1)"
    using tr by (simp add: transition_at_def)
  have only: "sim_s sm' i t = 1 \<and> draws_uniform sm i t \<le> p_birth p"
    if "sim_n sm' i t < sim_n sm' i (t + 1)"
    using tr that eq by (simp add: transition_at_def split: if_splits)
  have cap: "sim_n sm' i u \<le> int (Nn p) - 1" if "n_init sm i \<le> int (Nn p) - 1"
  proof -
    from that have "n_init sm' i \<le> int (Nn p) - 1" unfolding eq .
    with pd show ?thesis using assms(4) by (rule person_done_capped)
  qed
  from mono only cap show ?thesis by blast
qed

text \<open>
  One individual, two periods, a birth draw of 0: a birth at period 0.
\<close>

theorem C6_children_monotone_capped_witness:
  "\<exists>sm'. simulate interp_2d small_par flat_sol (blank_sim 0) = Some sm' \<and>
     sim_n sm' 0 0 = 0 \<and> sim_n sm' 0 1 = 1 \<and> sim_n sm' 0 0 \<le> sim_n sm' 0 1 \<and>
     sim_s sm' 0 0 = 1 \<and> draws_uniform (blank_sim 0) 0 0 \<le> p_birth small_par \<and>
     sim_n sm' 0 1 \<le> int (Nn small_par) - 1"
proof -
  from small_run obtain sm' where run: "simulate interp_2d small_par flat_sol (blank_sim 0) = Some sm'"
    and vals: "sim_n sm' 0 0 = 0" "sim_n sm' 0 1 = 1"
    by auto
  have h: "0 < simN small_par" "0 + 1 < simT small_par" "1 < simT small_par"
    "n_init (blank_sim 0) 0 \<le> int (Nn small_par) - 1"
    by (simp_all add: small_par_def setup_par_def blank_sim_def)
  from C6_children_monotone_capped [OF run h(1) h(2) h(3)] vals h(4)
  have "sim_n sm' 0 0 \<le> sim_n sm' 0 1 \<and> sim_s sm' 0 0 = 1 \<and>
        draws_uniform (blank_sim 0) 0 0 \<le> p_birth small_par \<and>
        sim_n sm' 0 1 \<le> int (Nn small_par) - 1"
    by simp
  with run vals show ?thesis by blast
qed

text \<open>
  Claim C7 as stated fails: with \<open>p_birth = 0\<close> and a birth draw of exactly \<open>0\<close>, which lies
  in \<open>[0, 1)\<close>, the test \<open>draw \<le> p_birth\<close> succeeds and the count goes from the initial 0
  to 1.
\<close>

theorem C7_zero_draw_counterexample:
  "p_birth zero_birth_par = 0 \<and>
   0 \<le> draws_uniform (blank_sim 0) 0 0 \<and> draws_uniform (blank_sim 0) 0 0 < 1 \<and>
   n_init (blank_sim 0) 0 = 0 \<and>
   map_option (\<lambda>s. sim_n s 0 1) (simulate interp_2d zero_birth_par flat_sol (blank_sim 0)) = Some 1"
proof -
  have "map_option (\<lambda>s. sim_n s 0 1) (simulate interp_2d zero_birth_par flat_sol (blank_sim 0))
        = Some 1"
    using zero_birth_run [of 0] by (auto simp add: map_option_case split: option.splits)
  then show ?thesis
    by (simp add: zero_birth_par_def small_par_def setup_par_def blank_sim_def)
qed

lemma person_done_no_birth:
  assumes "person_done p sm i" and "p_birth p = 0" and "\<forall>u<simT p. 0 < draws_uniform sm i u"
    and "t < simT p"
  shows "sim_n sm i t = n_init sm i"
  using assms(4)
proof (induction t)
  case 0
  then show ?case using assms(1) by (simp add: person_done_def)
next
  case (Suc t)
  then have ih: "sim_n sm i t = n_init sm i" and lt: "t + 1 < simT p" by simp_all
  from lt assms(3) have "0 < draws_uniform sm i t" by simp
  then have "\<not> draws_uniform sm i t \<le> p_birth p" using assms(2) by simp
  moreover from lt assms(1) have "transition_at p sm i t" by (simp add: person_done_def)
  ultimately show ?case using ih by (simp add: transition_at_def)
qed

text \<open>
  Claim C7, as amended. With \<open>p_birth = 0\<close> and every birth draw of the individual
  strictly positive, the children count of every period is the initial count.
\<close>

theorem C7_no_birth_positive_draws:
  assumes "simulate I p sl sm = Some sm'" and "i < simN p" and "t < simT p"
    and "p_birth p = 0" and "\<forall>u<simT p. 0 < draws_uniform sm i u"
  shows "sim_n sm' i t = n_init sm i"
proof -
  have pd: "person_done p sm' i" using assms(1,2) by (rule simulate_done)
  have kept: "inputs_kept sm sm'" using assms(1) by (rule simulate_inputs_kept)
  then have eq: "draws_uniform sm' = draws_uniform sm" "n_init sm' = n_init sm"
    by (simp_all add: inputs_kept_def)
  from assms(5) have "\<forall>u<simT p. 0 < draws_uniform sm' i u" by (simp add: eq)
  with pd assms(4) have "sim_n sm' i t = n_init sm' i" using assms(3)
    by (rule person_done_no_birth)
  then show ?thesis by (simp add: eq)
qed

text \<open>
  Birth draws of one half.
\<close>

theorem C7_no_birth_positive_draws_witness:
  "\<exists>sm'. simulate interp_2d zero_birth_par flat_sol (blank_sim (1 / 2)) = Some sm' \<and>
     p_birth zero_birth_par = 0 \<and> 0 < draws_uniform (blank_sim (1 / 2)) 0 0 \<and>
     sim_n sm' 0 1 = n_init (blank_sim (1 / 2)) 0 \<and> sim_n sm' 0 1 = 0"
proof -
  from zero_birth_run [of "1 / 2"] obtain sm'
    where run: "simulate interp_2d zero_birth_par flat_sol (blank_sim (1 / 2)) = Some sm'"
    by auto
  have h: "0 < simN zero_birth_par" "1 < simT zero_birth_par" "p_birth zero_birth_par = 0"
    "\<forall>u<simT zero_birth_par. 0 < draws_uniform (blank_sim (1 / 2)) 0 u"
    by (simp_all add: zero_birth_par_def small_par_def setup_par_def blank_sim_def)
  from C7_no_birth_positive_draws [OF run h]
  have "sim_n sm' 0 1 = n_init (blank_sim (1 / 2)) 0" .
  with run h(3) show ?thesis by (simp add: blank_sim_def)
qed

text \<open>
  Claim C8. After \<^verbatim>\<open>simulate\<close>, for every individual and every period but the last, the
  next assets and capital are \<open>a_next\<close> and \<open>k_next\<close> of \<^verbatim>\<open>value_of_choice\<close> at the
  period's assets, capital, spouse, children, consumption and hours:
  \<open>a[i,t+1] = (1 + r) * (a[i,t] + wage(k[i,t], t) * h[i,t] + spouse_income(s[i,t], t)
   - c[i,t] - childcare_cost(n[i,t]))\<close> and \<open>k[i,t+1] = k[i,t] + h[i,t]\<close>.
\<close>

theorem C8_simulator_transition:
  assumes "simulate I p sl sm = Some sm'" and "i < simN p" and "t + 1 < simT p"
  shows "a_next p (sim_a sm' i t) (sim_k sm' i t) (sim_s sm' i t) (sim_n sm' i t)
           (sim_c sm' i t) (sim_h sm' i t) (int t) = Some (sim_a sm' i (t + 1)) \<and>
         k_next (sim_k sm' i t) (sim_h sm' i t) = sim_k sm' i (t + 1) \<and>
         (\<exists>wg. wage_func p (sim_k sm' i t) (int t) = Some wg \<and>
            sim_a sm' i (t + 1) =
              (1 + r p) * (sim_a sm' i t + wg * sim_h sm' i t
                           + spouse_income_func p (sim_s sm' i t) (int t)
                           - sim_c sm' i t - childcare_cost p (sim_n sm' i t))) \<and>
         sim_k sm' i (t + 1) = sim_k sm' i t + sim_h sm' i t"
proof -
  have "person_done p sm' i" using assms(1,2) by (rule simulate_done)
  with assms(3) have tr: "transition_at p sm' i t" by (simp add: person_done_def)
  then have a: "a_next p (sim_a sm' i t) (sim_k sm' i t) (sim_s sm' i t) (sim_n sm' i t)
           (sim_c sm' i t) (sim_h sm' i t) (int t) = Some (sim_a sm' i (t + 1))"
    and k: "k_next (sim_k sm' i t) (sim_h sm' i t) = sim_k sm' i (t + 1)"
    by (simp_all add: transition_at_def)
  from a obtain wg where wg: "wage_func p (sim_k sm' i t) (int t) = Some wg"
    and eq0: "Some ((1 + r p) * (sim_a sm' i t + (wg * sim_h sm' i t
                           + spouse_income_func p (sim_s sm' i t) (int t))
                           - sim_c sm' i t - childcare_cost p (sim_n sm' i t)))
              = Some (sim_a sm' i (t + 1))"
    unfolding a_next_def Let_def by (cases "wage_func p (sim_k sm' i t) (int t)") simp_all
  from eq0 have eq: "sim_a sm' i (t + 1) =
              (1 + r p) * (sim_a sm' i t + wg * sim_h sm' i t
                           + spouse_income_func p (sim_s sm' i t) (int t)
                           - sim_c sm' i t - childcare_cost p (sim_n sm' i t))"
    by (simp add: add.assoc)
  from k have "sim_k sm' i (t + 1) = sim_k sm' i t + sim_h sm' i t"
    by (simp add: k_next_def)
  with a k wg eq show ?thesis by blast
qed

text \<open>
  One individual, two periods: assets \<open>-51/500\<close> and capital 1 at period 1.
\<close>

theorem C8_simulator_transition_witness:
  "\<exists>sm'. simulate interp_2d small_par flat_sol (blank_sim 0) = Some sm' \<and>
     a_next small_par 0 0 1 0 1 1 0 = Some (- (51 / 500)) \<and>
     sim_a sm' 0 1 = - (51 / 500) \<and> k_next 0 1 = 1 \<and> sim_k sm' 0 1 = 1"
proof -
  from small_run obtain sm' where run: "simulate interp_2d small_par flat_sol (blank_sim 0) = Some sm'"
    and vals: "sim_n sm' 0 0 = 0" "sim_s sm' 0 0 = 1" "sim_c sm' 0 0 = 1" "sim_h sm' 0 0 = 1"
      "sim_a sm' 0 0 = 0" "sim_k sm' 0 0 = 0"
    by auto
  have h: "0 < simN small_par" "0 + 1 < simT small_par"
    by (simp_all add: small_par_def setup_par_def)
  from C8_simulator_transition [OF run h] vals
  have "a_next small_par 0 0 1 0 1 1 0 = Some (sim_a sm' 0 1)" "k_next 0 1 = sim_k sm' 0 1"
    by simp_all
  moreover have "a_next small_par 0 0 1 0 1 1 0 = Some (- (51 / 500))" "k_next 0 1 = 1"
    by (simp_all add: a_next_def k_next_def run_simps)
  ultimately show ?thesis using run by simp
qed

end
